theory Spec2Isabelle
  imports Main
begin

section \<open>Strings: the Python operations used by \<open>clean_column\<close>\<close>

text \<open>
  Column names are modelled as \<open>string\<close> (lists of 8-bit characters), so the model is
  about ASCII header names; Python's \<open>str.lower\<close> on characters outside ASCII is not
  covered. The apostrophe is written \<open>CHR 0x27\<close>.
\<close>

text \<open>\<open>s.startswith(p)\<close>.\<close>

fun startswith :: "string \<Rightarrow> string \<Rightarrow> bool" where
  "startswith s [] = True"
| "startswith [] (p # ps) = False"
| "startswith (c # cs) (p # ps) = (c = p \<and> startswith cs ps)"

text \<open>\<open>sub in s\<close>: the substring test of Python.\<close>

fun py_in :: "string \<Rightarrow> string \<Rightarrow> bool" where
  "py_in sub [] = (sub = [])"
| "py_in sub (c # cs) = (startswith (c # cs) sub \<or> py_in sub cs)"

text \<open>
  \<open>s.replace(old, new)\<close>: the occurrences of \<open>old\<close> are found scanning from the left,
  each one is replaced and the scan goes on behind it, so occurrences never overlap and
  the text that was put in is not scanned again. For an empty \<open>old\<close> Python puts
  \<open>new\<close> before every character and at the end.
\<close>

function replace_from :: "string \<Rightarrow> string \<Rightarrow> string \<Rightarrow> string" where
  "replace_from old new [] = []"
| "replace_from old new (c # cs) =
     (if old \<noteq> [] \<and> startswith (c # cs) old
      then new @ replace_from old new (drop (length old) (c # cs))
      else c # replace_from old new cs)"
  by pat_completeness auto
termination
  by (relation "measure (\<lambda>(old, new, s). length s)") (auto simp: neq_Nil_conv)

definition replace :: "string \<Rightarrow> string \<Rightarrow> string \<Rightarrow> string" where
  "replace s old new =
     (if old = [] then new @ concat (map (\<lambda>c. c # new) s) else replace_from old new s)"

text \<open>\<open>s.lower()\<close> on ASCII: the 26 capital letters go to their small letters.\<close>

definition lower_char :: "char \<Rightarrow> char" where
  "lower_char c =
     (case map_of (zip ''ABCDEFGHIJKLMNOPQRSTUVWXYZ'' ''abcdefghijklmnopqrstuvwxyz'') c of
        Some l \<Rightarrow> l
      | None \<Rightarrow> c)"

definition lower :: "string \<Rightarrow> string" where
  "lower s = map lower_char s"

text \<open>
  \<open>re.sub("_\([^()]*\)", "", col)\<close>. The pattern is an underscore, an opening
  parenthesis, any number of characters that are not parentheses, and a closing
  parenthesis. \<open>close_group\<close> reads the text behind \<open>_(\<close>: the run of
  non-parentheses is greedy and can only stop before a parenthesis or at the end, so the
  match succeeds exactly when the first parenthesis met is a closing one; it returns the
  text behind the match. \<open>re.sub\<close> tries the pattern at each position from the left,
  and goes on behind a match.
\<close>

fun close_group :: "string \<Rightarrow> string option" where
  "close_group [] = None"
| "close_group (c # cs) =
     (if c = CHR '')'' then Some cs else if c = CHR ''('' then None else close_group cs)"

fun match_at :: "string \<Rightarrow> string option" where
  "match_at (a # b # cs) = (if a = CHR ''_'' \<and> b = CHR ''('' then close_group cs else None)"
| "match_at _ = None"

function re_sub_group :: "string \<Rightarrow> string" where
  "re_sub_group [] = []"
| "re_sub_group (c # cs) =
     (case match_at (c # cs) of
        Some rest \<Rightarrow> re_sub_group rest
      | None \<Rightarrow> c # re_sub_group cs)"
  by pat_completeness auto
termination
proof (relation "measure length")
  show "wf (measure length)" by simp
next
  fix c :: char and cs :: string
  assume "match_at (c # cs) = None"
  then show "(cs, c # cs) \<in> measure length" by simp
next
  fix c :: char and cs rest :: string
  assume m: "match_at (c # cs) = Some rest"
  have close: "close_group s = Some r \<Longrightarrow> length r < length s" for s r
    by (induction s) (auto split: if_splits)
  from m have "length rest < length (c # cs)"
    by (cases "c # cs" rule: match_at.cases) (auto split: if_splits dest: close)
  then show "(rest, c # cs) \<in> measure length" by simp
qed

section \<open>The column name normalizer\<close>

text \<open>
  \<open>clean_column\<close> of \<open>scripts/ipeds_data_cleaning.py\<close>: the chain of \<open>replace\<close>
  calls with \<open>lower\<close> in the middle, then the regular expression.
\<close>

definition clean_column :: "string \<Rightarrow> string" where
  "clean_column col =
     re_sub_group
       (replace (replace (replace (replace (replace (replace (replace (replace
          (lower
            (replace (replace (replace (replace (replace col
               [CHR 0x27, CHR ''s''] '''')
               '' - '' ''_'')
               '' '' ''_'')
               ''/'' ''-'')
               ''__'' ''_''))
          ''graduation_rate'' ''gradrate'')
          ''_within_'' ''_'')
          ''two_or_more_races'' ''multirace'')
          ''_of_institution'' '''')
          ''_location'' '''')
          ''_or_post_office_box'' '''')
          ''_of_'' ''_'')
          ''_that_are_'' ''_'')"

text \<open>
  The chain cut at the collapse of double underscores: what the first four calls give, and
  what the calls behind the collapse make of its result.
\<close>

definition before_collapse :: "string \<Rightarrow> string" where
  "before_collapse col =
     replace (replace (replace (replace col
       [CHR 0x27, CHR ''s''] '''') '' - '' ''_'') '' '' ''_'') ''/'' ''-''"

definition after_collapse :: "string \<Rightarrow> string" where
  "after_collapse s =
     re_sub_group
       (replace (replace (replace (replace (replace (replace (replace (replace
          (lower s)
          ''graduation_rate'' ''gradrate'')
          ''_within_'' ''_'')
          ''two_or_more_races'' ''multirace'')
          ''_of_institution'' '''')
          ''_location'' '''')
          ''_or_post_office_box'' '''')
          ''_of_'' ''_'')
          ''_that_are_'' ''_'')"

subsection \<open>The normalizer as the specification words it\<close>





subsection \<open>Reducible patterns\<close>

text \<open>
  The patterns a rewrite of the chain looks for: the thirteen literals that are replaced,
  and a match of the regular expression somewhere in the string.
\<close>

definition rewrite_sources :: "string list" where
  "rewrite_sources =
    [[CHR 0x27, CHR ''s''], '' - '', '' '', ''/'', ''__'',
     ''graduation_rate'', ''_within_'', ''two_or_more_races'', ''_of_institution'',
     ''_location'', ''_or_post_office_box'', ''_of_'', ''_that_are_'']"

fun has_group :: "string \<Rightarrow> bool" where
  "has_group [] = False"
| "has_group (c # cs) = (match_at (c # cs) \<noteq> None \<or> has_group cs)"

definition irreducible :: "string \<Rightarrow> bool" where
  "irreducible s \<longleftrightarrow> (\<forall>p \<in> set rewrite_sources. \<not> py_in p s) \<and> \<not> has_group s"

definition no_capital :: "string \<Rightarrow> bool" where
  "no_capital s \<longleftrightarrow> (\<forall>c \<in> set s. lower_char c = c)"


section \<open>Tables and the operations of the script on them\<close>

subsection \<open>Data model\<close>

text \<open>
  A cell of a table read from CSV holds a number, a string or nothing (pandas' NaN). A
  table has its columns in order, each a name with its cells, and the row labels
  (\<open>index\<close>); \<open>read_csv\<close> gives distinct column names, since it renames repeated
  headers, and one cell per row in every column (\<open>wf_table\<close>). A row of the value
  labels file has the three fields the script reads; a row whose \<open>Value\<close> is missing is
  outside the model. The faults of the run are the Python exceptions it can raise.
\<close>

datatype error = IndexError | KeyError | ParserError

datatype scalar = IntV int | StrV string

type_synonym cell = "scalar option"

record datatable =
  columns :: "(string \<times> cell list) list"
  index :: "nat list"

record label_row =
  VariableName :: string
  Value :: scalar
  ValueLabel :: cell

text \<open>The dictionary \<open>labels\<close>: its keys in insertion order, each with its own dictionary.\<close>

type_synonym labelmap = "(string \<times> (scalar \<rightharpoonup> cell)) list"

definition column_names :: "datatable \<Rightarrow> string list" where
  "column_names data = map fst (columns data)"

definition wf_table :: "datatable \<Rightarrow> bool" where
  "wf_table data \<longleftrightarrow> (\<forall>c \<in> set (columns data). length (snd c) = length (index data))"

subsection \<open>Indexing a table\<close>

text \<open>
  \<open>data[key]\<close> raises \<open>KeyError\<close> when no column has that name, and gives the cells of
  the column otherwise. \<open>data[keys]\<close> with a list raises \<open>KeyError\<close> when a name is
  missing, and otherwise puts together, in the order of the list, the columns carrying
  each name. \<open>data[key] = series\<close> overwrites the column of that name in place, and adds
  a column at the end when there is none.
\<close>

definition getitem :: "datatable \<Rightarrow> string \<Rightarrow> error + cell list" where
  "getitem data key =
     (case map_of (columns data) key of None \<Rightarrow> Inl KeyError | Some series \<Rightarrow> Inr series)"

definition select :: "(string \<times> cell list) list \<Rightarrow> string \<Rightarrow> (string \<times> cell list) list" where
  "select cols key = filter (\<lambda>c. fst c = key) cols"

definition getitem_list :: "datatable \<Rightarrow> string list \<Rightarrow> error + datatable" where
  "getitem_list data keys =
     (if \<exists>key \<in> set keys. key \<notin> set (column_names data) then Inl KeyError
      else Inr (data\<lparr>columns := concat (map (select (columns data)) keys)\<rparr>))"

definition setitem :: "datatable \<Rightarrow> string \<Rightarrow> cell list \<Rightarrow> datatable" where
  "setitem data key series =
     (if key \<in> set (column_names data)
      then data\<lparr>columns := map (\<lambda>c. if fst c = key then (key, series) else c) (columns data)\<rparr>
      else data\<lparr>columns := columns data @ [(key, series)]\<rparr>)"

text \<open>
  \<open>series.map(mapping)\<close> with a dictionary: a cell whose value is a key becomes the
  value stored under it, every other cell becomes missing.
\<close>

definition series_map :: "cell list \<Rightarrow> (scalar \<rightharpoonup> cell) \<Rightarrow> cell list" where
  "series_map series mapping =
     map (\<lambda>c. case c of None \<Rightarrow> None
               | Some v \<Rightarrow> (case mapping v of None \<Rightarrow> None | Some label \<Rightarrow> label)) series"

subsection \<open>The steps of \<open>clean_data\<close>\<close>

text \<open>\<open>[file for file in namelist if sub in file][0]\<close>.\<close>

definition first_match :: "string \<Rightarrow> string list \<Rightarrow> error + string" where
  "first_match sub namelist =
     (case filter (py_in sub) namelist of [] \<Rightarrow> Inl IndexError | file # _ \<Rightarrow> Inr file)"

text \<open>
  \<open>data_cols = [col for col in data.columns if "Unnamed" not in col]\<close> and
  \<open>data = data[data_cols].copy()\<close>.
\<close>

definition filter_unnamed :: "datatable \<Rightarrow> error + datatable" where
  "filter_unnamed data =
     getitem_list data (filter (\<lambda>col. \<not> py_in ''Unnamed'' col) (column_names data))"

text \<open>
  The dictionary of labels. \<open>unique\<close> keeps the first occurrence of every variable name,
  in order; for each name the rows of that variable are walked in the order of the file,
  and every row stores its label under its value.
\<close>

fun unique :: "'a list \<Rightarrow> 'a list" where
  "unique [] = []"
| "unique (x # xs) = x # unique (filter (\<lambda>y. y \<noteq> x) xs)"

definition build_mapping :: "label_row list \<Rightarrow> (scalar \<rightharpoonup> cell)" where
  "build_mapping working_df =
     foldl (\<lambda>m row. m(Value row \<mapsto> ValueLabel row)) Map.empty working_df"

definition build_labels :: "label_row list \<Rightarrow> labelmap" where
  "build_labels value_labels =
     map (\<lambda>var. (var, build_mapping (filter (\<lambda>row. VariableName row = var) value_labels)))
       (unique (map VariableName value_labels))"

definition label_of :: "labelmap \<Rightarrow> string \<Rightarrow> scalar \<Rightarrow> cell option" where
  "label_of labels var v =
     (case map_of labels var of None \<Rightarrow> None | Some mapping \<Rightarrow> mapping v)"

text \<open>
  \<open>for key in labels.keys(): data[key] = data[key].map(labels[key])\<close>. The first key
  without a column stops the loop with \<open>KeyError\<close>.
\<close>

fun substitute :: "datatable \<Rightarrow> labelmap \<Rightarrow> string list \<Rightarrow> error + datatable" where
  "substitute data labels [] = Inr data"
| "substitute data labels (key # keys) =
     (case getitem data key of
        Inl e \<Rightarrow> Inl e
      | Inr series \<Rightarrow>
          (case map_of labels key of
             None \<Rightarrow> Inl KeyError
           | Some mapping \<Rightarrow>
               substitute (setitem data key (series_map series mapping)) labels keys))"

definition apply_labels :: "datatable \<Rightarrow> labelmap \<Rightarrow> error + datatable" where
  "apply_labels data labels = substitute data labels (map fst labels)"

text \<open>\<open>data.columns = [clean_column(col) for col in data.columns]\<close>.\<close>

definition rename_columns :: "datatable \<Rightarrow> datatable" where
  "rename_columns data =
     data\<lparr>columns := map (\<lambda>c. (clean_column (fst c), snd c)) (columns data)\<rparr>"

subsection \<open>The run\<close>

text \<open>
  The archive is given by the list of its member names, and reading a member as CSV by
  two functions, one for the data file and one for the value labels file, which may fail.
  \<open>process\<close> is the body of \<open>clean_data\<close> up to the table that is written; every
  exception leaves it at once. \<open>clean_data\<close> writes that table under the dated name
  into the output directory, a map from file names to what was written, and writes
  nothing when \<open>process\<close> failed.
\<close>

definition process ::
  "(string \<Rightarrow> error + datatable) \<Rightarrow> (string \<Rightarrow> error + label_row list) \<Rightarrow> string list
     \<Rightarrow> error + datatable" where
  "process read_data read_labels namelist =
     (case first_match ''Data'' namelist of
        Inl e \<Rightarrow> Inl e
      | Inr DATA_FILE \<Rightarrow>
     (case first_match ''ValueLabels'' namelist of
        Inl e \<Rightarrow> Inl e
      | Inr VALUELABELS_FILE \<Rightarrow>
     (case read_data DATA_FILE of
        Inl e \<Rightarrow> Inl e
      | Inr data \<Rightarrow>
     (case read_labels VALUELABELS_FILE of
        Inl e \<Rightarrow> Inl e
      | Inr value_labels \<Rightarrow>
     (case filter_unnamed data of
        Inl e \<Rightarrow> Inl e
      | Inr data \<Rightarrow>
     (case apply_labels data (build_labels value_labels) of
        Inl e \<Rightarrow> Inl e
      | Inr data \<Rightarrow> Inr (rename_columns data)))))))"

definition clean_data ::
  "(string \<Rightarrow> error + datatable) \<Rightarrow> (string \<Rightarrow> error + label_row list) \<Rightarrow> string
     \<Rightarrow> string list \<Rightarrow> (string \<rightharpoonup> datatable) \<Rightarrow> error option \<times> (string \<rightharpoonup> datatable)" where
  "clean_data read_data read_labels today namelist output_dir =
     (case process read_data read_labels namelist of
        Inl e \<Rightarrow> (Some e, output_dir)
      | Inr data \<Rightarrow> (None, output_dir(''processed_data-'' @ today @ ''.csv'' \<mapsto> data)))"

subsection \<open>What the substitution makes of a column\<close>

definition relabel ::
  "labelmap \<Rightarrow> string list \<Rightarrow> string \<times> cell list \<Rightarrow> string \<times> cell list" where
  "relabel labels keys c =
     (if fst c \<in> set keys
      then (case map_of labels (fst c) of
              None \<Rightarrow> c
            | Some mapping \<Rightarrow> (fst c, series_map (snd c) mapping))
      else c)"

section \<open>Properties of the normalizer\<close>

subsection \<open>What the string operations compute\<close>

text \<open>
  \<open>startswith\<close> is the prefix test and \<open>py_in\<close> the substring test; \<open>replace_from\<close>
  rewrites the leftmost occurrence of \<open>old\<close> and goes on behind it.
\<close>

lemma startswith_iff: "startswith s p \<longleftrightarrow> (\<exists>t. s = p @ t)"
  by (induction s p rule: startswith.induct) auto

lemma py_in_iff: "py_in sub s \<longleftrightarrow> (\<exists>pre post. s = pre @ sub @ post)"
proof (induction s)
  case Nil
  then show ?case by auto
next
  case (Cons c cs)
  show ?case
  proof
    assume "py_in sub (c # cs)"
    then consider "startswith (c # cs) sub" | "py_in sub cs" by auto
    then show "\<exists>pre post. c # cs = pre @ sub @ post"
    proof cases
      case 1
      then obtain t where "c # cs = [] @ sub @ t" by (auto simp: startswith_iff)
      then show ?thesis by blast
    next
      case 2
      with Cons.IH obtain pre post where "cs = pre @ sub @ post" by blast
      then have "c # cs = (c # pre) @ sub @ post" by simp
      then show ?thesis by blast
    qed
  next
    assume "\<exists>pre post. c # cs = pre @ sub @ post"
    then obtain pre post where e: "c # cs = pre @ sub @ post" by blast
    show "py_in sub (c # cs)"
    proof (cases pre)
      case Nil
      with e have "startswith (c # cs) sub" by (auto simp: startswith_iff)
      then show ?thesis by simp
    next
      case (Cons p ps)
      with e have "cs = ps @ sub @ post" by simp
      with Cons.IH have "py_in sub cs" by blast
      then show ?thesis by simp
    qed
  qed
qed

lemma replace_from_leftmost:
  assumes "old \<noteq> []"
    and "\<forall>i < length pre. \<not> startswith (drop i (pre @ old @ rest)) old"
  shows "replace_from old new (pre @ old @ rest) = pre @ new @ replace_from old new rest"
  using assms(2)
proof (induction pre)
  case Nil
  from assms(1) obtain c cs where o: "old @ rest = c # cs" by (cases old) auto
  have "startswith (old @ rest) old" by (auto simp: startswith_iff)
  with o assms(1) have "replace_from old new (c # cs)
      = new @ replace_from old new (drop (length old) (c # cs))" by simp
  with o show ?case by (metis append_Nil append_eq_conv_conj)
next
  case (Cons p ps)
  from Cons.prems have "\<not> startswith ((p # ps) @ old @ rest) old" by force
  moreover have "\<forall>i < length ps. \<not> startswith (drop i (ps @ old @ rest)) old"
  proof (intro allI impI)
    fix i assume "i < length ps"
    then have "Suc i < length (p # ps)" by simp
    with Cons.prems have "\<not> startswith (drop (Suc i) ((p # ps) @ old @ rest)) old" by blast
    then show "\<not> startswith (drop i (ps @ old @ rest)) old" by simp
  qed
  ultimately show ?case using Cons.IH by simp
qed

subsection \<open>A rewrite whose pattern is absent changes nothing\<close>

lemma replace_from_absent: "\<not> py_in old s \<Longrightarrow> replace_from old new s = s"
  by (induction old new s rule: replace_from.induct) auto

lemma replace_absent: "old \<noteq> [] \<Longrightarrow> \<not> py_in old s \<Longrightarrow> replace s old new = s"
  by (simp add: replace_def replace_from_absent)

lemma re_sub_group_absent: "\<not> has_group s \<Longrightarrow> re_sub_group s = s"
  by (induction s rule: re_sub_group.induct) auto

subsection \<open>The characters of the results\<close>

lemma set_replace_from: "set (replace_from old new s) \<subseteq> set s \<union> set new"
proof (induction old new s rule: replace_from.induct)
  case (1 old new)
  show ?case by simp
next
  case (2 old new c cs)
  show ?case
  proof (cases "old \<noteq> [] \<and> startswith (c # cs) old")
    case True
    have "set (drop (length old) (c # cs)) \<subseteq> set (c # cs)"
      by (rule set_drop_subset)
    with True 2(1) show ?thesis by auto
  next
    case False
    with 2(2) show ?thesis by auto
  qed
qed

lemma set_replace: "old \<noteq> [] \<Longrightarrow> set (replace s old new) \<subseteq> set s \<union> set new"
  using set_replace_from by (simp add: replace_def)

lemma set_close_group: "close_group s = Some r \<Longrightarrow> set r \<subseteq> set s"
  by (induction s) (auto split: if_splits)

lemma set_match_at: "match_at s = Some r \<Longrightarrow> set r \<subseteq> set s"
  by (cases s rule: match_at.cases) (auto split: if_splits dest: set_close_group)

lemma set_re_sub_group: "set (re_sub_group s) \<subseteq> set s"
proof (induction s rule: re_sub_group.induct)
  case 1
  show ?case by simp
next
  case (2 c cs)
  show ?case
  proof (cases "match_at (c # cs)")
    case None
    with 2 show ?thesis by auto
  next
    case (Some rest)
    with 2 set_match_at [OF Some] show ?thesis by auto
  qed
qed

lemma lower_char_idem: "lower_char (lower_char c) = lower_char c"
  by (simp add: lower_char_def)

lemma no_capital_lower: "no_capital (lower s)"
  by (simp add: no_capital_def lower_def lower_char_idem)

lemma lower_fixed: "no_capital s \<Longrightarrow> lower s = s"
  by (simp add: no_capital_def lower_def map_idI)

lemma no_capital_replace:
  "old \<noteq> [] \<Longrightarrow> no_capital s \<Longrightarrow> no_capital new \<Longrightarrow> no_capital (replace s old new)"
  using set_replace [of old s new] by (auto simp: no_capital_def)

lemma no_capital_re_sub_group: "no_capital s \<Longrightarrow> no_capital (re_sub_group s)"
  using set_re_sub_group [of s] by (auto simp: no_capital_def)

lemma no_capital_clean_column: "no_capital (clean_column col)"
  unfolding clean_column_def
  by (intro no_capital_re_sub_group no_capital_replace no_capital_lower)
     (simp_all add: no_capital_def lower_char_def)

subsection \<open>Runs of underscores\<close>

lemma collapse_run:
  "replace_from ''__'' ''_'' (replicate n (CHR ''_'')) = replicate (Suc n div 2) (CHR ''_'')"
proof (induction n rule: less_induct)
  case (less n)
  show ?case
  proof (cases n)
    case 0
    then show ?thesis by simp
  next
    case (Suc m)
    show ?thesis
    proof (cases m)
      case 0
      with Suc show ?thesis by simp
    next
      case (Suc k)
      with \<open>n = Suc m\<close> less [of k] show ?thesis by simp
    qed
  qed
qed

lemma clean_column_split:
  "clean_column col = after_collapse (replace (before_collapse col) ''__'' ''_'')"
  by (simp add: clean_column_def before_collapse_def after_collapse_def)

subsection \<open>The claims about the normalizer\<close>


text \<open>
  C4. The normalizer maps the column name \<open>Graduation Rate - Women (2020)\<close> to
  \<open>gradrate_women\<close>.
\<close>

theorem clean_column_example:
  "clean_column ''Graduation Rate - Women (2020)'' = ''gradrate_women''"
  by code_simp


text \<open>
  C5. When the normalized name \<open>clean_column x\<close> holds none of the literals the chain
  replaces and no group \<open>_(...)\<close>, normalizing it again changes nothing.
\<close>

theorem clean_column_idempotent:
  assumes "irreducible (clean_column x)"
  shows "clean_column (clean_column x) = clean_column x"
proof -
  define y where "y = clean_column x"
  have absent: "\<And>p. p \<in> set rewrite_sources \<Longrightarrow> \<not> py_in p y" and group: "\<not> has_group y"
    using assms by (auto simp: irreducible_def y_def)
  have low: "lower y = y"
    unfolding y_def by (rule lower_fixed [OF no_capital_clean_column])
  have "clean_column y = y"
    unfolding clean_column_def
    by (simp add: absent replace_absent rewrite_sources_def low re_sub_group_absent [OF group])
  then show ?thesis by (simp add: y_def)
qed

theorem clean_column_idempotent_witness:
  "irreducible (clean_column ''Graduation Rate - Women (2020)'')
   \<and> clean_column (clean_column ''Graduation Rate - Women (2020)'')
     = clean_column ''Graduation Rate - Women (2020)''"
proof -
  have h: "irreducible (clean_column ''Graduation Rate - Women (2020)'')"
    by code_simp
  from clean_column_idempotent [OF h] h show ?thesis by simp
qed

text \<open>
  C6. The collapse of \<open>__\<close> is one pass of \<open>replace\<close>: a name that reaches it as
  \<open>a___b\<close> leaves the normalizer as \<open>a__b\<close>, not \<open>a_b\<close>, and a run of three or more
  underscores still holds a double underscore after the pass.
\<close>

theorem collapse_single_pass:
  "(before_collapse col = ''a___b'' \<longrightarrow>
      clean_column col = ''a__b'' \<and> clean_column col \<noteq> ''a_b'')
   \<and> (3 \<le> n \<longrightarrow> py_in ''__'' (replace (replicate n (CHR ''_'')) ''__'' ''_''))"
proof -
  have a: "clean_column col = ''a__b''" if "before_collapse col = ''a___b''"
  proof -
    have "after_collapse (replace ''a___b'' ''__'' ''_'') = ''a__b''" by code_simp
    with that show ?thesis by (simp only: clean_column_split)
  qed
  have b: "py_in ''__'' (replace (replicate n (CHR ''_'')) ''__'' ''_'')" if "3 \<le> n"
  proof -
    from that have "2 \<le> Suc n div 2" by arith
    then obtain k where k: "Suc n div 2 = Suc (Suc k)"
      by (auto simp: le_iff_add)
    show ?thesis by (simp add: replace_def collapse_run k)
  qed
  from a b show ?thesis by simp
qed

theorem collapse_single_pass_witness:
  "before_collapse ''a _ b'' = ''a___b'' \<and> clean_column ''a _ b'' = ''a__b''
   \<and> clean_column ''a _ b'' \<noteq> ''a_b''
   \<and> py_in ''__'' (replace (replicate 3 (CHR ''_'')) ''__'' ''_'')"
proof -
  have h: "before_collapse ''a _ b'' = ''a___b''" by code_simp
  from collapse_single_pass [of "''a _ b''" 3] h show ?thesis by simp
qed

section \<open>Properties of the table operations\<close>

subsection \<open>The dictionary of labels\<close>

lemma set_unique: "set (unique xs) = set xs"
  by (induction xs rule: unique.induct) auto

lemma distinct_unique: "distinct (unique xs)"
  by (induction xs rule: unique.induct) (auto simp: set_unique)

lemma distinct_build_labels: "distinct (map fst (build_labels value_labels))"
  by (simp add: build_labels_def comp_def distinct_unique)

lemma keys_build_labels:
  "set (map fst (build_labels value_labels)) = VariableName ` set value_labels"
  by (simp add: build_labels_def comp_def set_unique)

lemma dom_labels: "set (map fst labels) \<subseteq> dom (map_of labels)"
  by (auto simp: dom_map_of_conv_image_fst)

lemma build_mapping_last:
  "build_mapping rows v = map_option ValueLabel (find (\<lambda>row. Value row = v) (rev rows))"
  unfolding build_mapping_def
  by (induction rows rule: rev_induct) auto

lemma find_filter: "find Q (filter P xs) = find (\<lambda>x. P x \<and> Q x) xs"
  by (induction xs) auto

lemma map_of_build_labels:
  "map_of (build_labels value_labels) var =
     (if var \<in> VariableName ` set value_labels
      then Some (build_mapping (filter (\<lambda>row. VariableName row = var) value_labels))
      else None)"
  by (auto simp: build_labels_def map_of_map_restrict restrict_map_def set_unique)

lemma label_of_build_labels:
  "label_of (build_labels value_labels) var v =
     map_option ValueLabel
       (find (\<lambda>row. VariableName row = var \<and> Value row = v) (rev value_labels))"
proof (cases "var \<in> VariableName ` set value_labels")
  case True
  then show ?thesis
    by (simp add: label_of_def map_of_build_labels build_mapping_last rev_filter find_filter)
next
  case False
  then have "find (\<lambda>row. VariableName row = var \<and> Value row = v) (rev value_labels) = None"
    by (auto simp: find_None_iff)
  with False show ?thesis
    by (simp add: label_of_def map_of_build_labels)
qed

lemma find_append_first:
  "\<forall>x \<in> set xs. \<not> P x \<Longrightarrow> P y \<Longrightarrow> find P (xs @ y # ys) = Some y"
  by (induction xs) auto

subsection \<open>Choosing the archive members\<close>

lemma first_match_Nil: "first_match sub [] = Inl IndexError"
  by (simp add: first_match_def)

lemma first_match_Cons:
  "first_match sub (f # fs) = (if py_in sub f then Inr f else first_match sub fs)"
  by (simp add: first_match_def)

lemma first_match_Inl:
  "first_match sub namelist = Inl e \<longleftrightarrow>
     e = IndexError \<and> (\<forall>f \<in> set namelist. \<not> py_in sub f)"
  by (induction namelist) (auto simp: first_match_Nil first_match_Cons)

lemma first_match_skip:
  "\<forall>f \<in> set pre. \<not> py_in sub f \<Longrightarrow> first_match sub (pre @ rest) = first_match sub rest"
  by (induction pre) (auto simp: first_match_Cons)

lemma first_match_Inr:
  "first_match sub namelist = Inr file \<longleftrightarrow>
     (\<exists>pre post. namelist = pre @ file # post \<and> py_in sub file
        \<and> (\<forall>f \<in> set pre. \<not> py_in sub f))"
proof
  show "first_match sub namelist = Inr file \<Longrightarrow>
     \<exists>pre post. namelist = pre @ file # post \<and> py_in sub file
        \<and> (\<forall>f \<in> set pre. \<not> py_in sub f)"
  proof (induction namelist)
    case Nil
    then show ?case by (simp add: first_match_Nil)
  next
    case (Cons f fs)
    show ?case
    proof (cases "py_in sub f")
      case True
      with Cons.prems have "f = file" by (simp add: first_match_Cons)
      with True have "f # fs = [] @ file # fs \<and> py_in sub file
          \<and> (\<forall>g \<in> set []. \<not> py_in sub g)"
        by simp
      then show ?thesis by blast
    next
      case False
      with Cons.prems have "first_match sub fs = Inr file" by (simp add: first_match_Cons)
      from Cons.IH [OF this] obtain pre post where
        "fs = pre @ file # post" "py_in sub file" "\<forall>g \<in> set pre. \<not> py_in sub g" by blast
      with False have "f # fs = (f # pre) @ file # post \<and> py_in sub file
          \<and> (\<forall>g \<in> set (f # pre). \<not> py_in sub g)" by simp
      then show ?thesis by blast
    qed
  qed
next
  assume "\<exists>pre post. namelist = pre @ file # post \<and> py_in sub file
            \<and> (\<forall>f \<in> set pre. \<not> py_in sub f)"
  then show "first_match sub namelist = Inr file"
    by (auto simp: first_match_skip first_match_Cons)
qed

subsection \<open>Reading and writing a column\<close>

lemma getitem_Inr:
  "getitem data key = Inr series \<longleftrightarrow> map_of (columns data) key = Some series"
  by (simp add: getitem_def split: option.splits)

lemma getitem_Inl:
  "getitem data key = Inl e \<longleftrightarrow> e = KeyError \<and> key \<notin> set (column_names data)"
proof (cases "map_of (columns data) key")
  case None
  then have n: "key \<notin> set (column_names data)"
    by (simp add: column_names_def map_of_eq_None_iff)
  have "getitem data key = Inl KeyError"
    unfolding getitem_def None by simp
  with n show ?thesis by auto
next
  case (Some series)
  then have "map_of (columns data) key \<noteq> None" by simp
  then have "key \<in> set (column_names data)"
    unfolding column_names_def map_of_eq_None_iff by simp
  with Some show ?thesis by (simp add: getitem_def)
qed

lemma getitem_column:
  "getitem data key = Inr series \<Longrightarrow> key \<in> set (column_names data)"
  using getitem_Inl [of data key KeyError]
  by (cases "key \<in> set (column_names data)") auto

lemma column_getitem:
  "key \<in> set (column_names data) \<Longrightarrow> \<exists>series. getitem data key = Inr series"
  by (cases "getitem data key") (auto simp: getitem_Inl)

lemma column_names_setitem:
  "key \<in> set (column_names data) \<Longrightarrow>
     column_names (setitem data key series) = column_names data"
  by (auto simp: setitem_def column_names_def)

lemma index_setitem: "index (setitem data key series) = index data"
  by (simp add: setitem_def)

lemma length_columns_setitem:
  "key \<in> set (column_names data) \<Longrightarrow>
     length (columns (setitem data key series)) = length (columns data)"
  by (simp add: setitem_def)

lemma setitem_other:
  "i < length (columns data) \<Longrightarrow> fst (columns data ! i) \<noteq> key \<Longrightarrow>
     columns (setitem data key series) ! i = columns data ! i"
  by (auto simp: setitem_def nth_append)

lemma length_series_map: "length (series_map series mapping) = length series"
  by (simp add: series_map_def)

lemma wf_table_setitem:
  "wf_table data \<Longrightarrow> length series = length (index data) \<Longrightarrow>
     wf_table (setitem data key series)"
  by (auto simp: wf_table_def setitem_def)

subsection \<open>The substitution loop\<close>

text \<open>A key without a column makes the loop fail, whatever the keys before it did.\<close>

lemma substitute_missing:
  assumes "\<exists>key \<in> set keys. key \<notin> set (column_names data)"
    and "set keys \<subseteq> dom (map_of labels)"
  shows "substitute data labels keys = Inl KeyError"
  using assms
proof (induction keys arbitrary: data)
  case Nil
  then show ?case by simp
next
  case (Cons key keys)
  show ?case
  proof (cases "key \<in> set (column_names data)")
    case False
    then have "getitem data key = Inl KeyError" by (simp add: getitem_Inl)
    then show ?thesis by simp
  next
    case True
    then obtain series where s: "getitem data key = Inr series"
      using column_getitem by blast
    from Cons.prems obtain mapping where m: "map_of labels key = Some mapping" by auto
    let ?d = "setitem data key (series_map series mapping)"
    from True Cons.prems have "\<exists>k \<in> set keys. k \<notin> set (column_names ?d)"
      by (auto simp: column_names_setitem)
    moreover from Cons.prems have "set keys \<subseteq> dom (map_of labels)" by simp
    ultimately have "substitute ?d labels keys = Inl KeyError" by (rule Cons.IH)
    with s m show ?thesis by simp
  qed
qed

text \<open>When every key has a column and a dictionary, the loop runs to its end.\<close>

lemma substitute_total:
  "set keys \<subseteq> set (column_names data) \<Longrightarrow> set keys \<subseteq> dom (map_of labels) \<Longrightarrow>
     \<exists>data'. substitute data labels keys = Inr data'"
proof (induction keys arbitrary: data)
  case Nil
  then show ?case by simp
next
  case (Cons key keys)
  from Cons.prems obtain mapping where m: "map_of labels key = Some mapping" by auto
  from Cons.prems have k: "key \<in> set (column_names data)" by simp
  then obtain series where g: "getitem data key = Inr series"
    using column_getitem by blast
  let ?d = "setitem data key (series_map series mapping)"
  from Cons.prems k have "\<exists>data'. substitute ?d labels keys = Inr data'"
    by (intro Cons.IH) (auto simp: column_names_setitem)
  with g m show ?case by simp
qed

lemma substitute_Inr_keys:
  "substitute data labels keys = Inr data' \<Longrightarrow>
     set keys \<subseteq> set (column_names data) \<and> set keys \<subseteq> dom (map_of labels)"
proof (induction keys arbitrary: data)
  case Nil
  then show ?case by simp
next
  case (Cons key keys)
  from Cons.prems obtain series where g: "getitem data key = Inr series"
    by (cases "getitem data key") auto
  with Cons.prems obtain mapping where m: "map_of labels key = Some mapping"
    by (cases "map_of labels key") auto
  from g have k: "key \<in> set (column_names data)" by (rule getitem_column)
  from Cons.prems g m
  have "substitute (setitem data key (series_map series mapping)) labels keys = Inr data'"
    by simp
  from Cons.IH [OF this] k m show ?case by (auto simp: column_names_setitem)
qed

text \<open>
  With distinct column names and distinct keys the loop maps every column named by a key
  through the dictionary of that key, once, and leaves the others.
\<close>

lemma substitute_columns:
  assumes "distinct keys" and "distinct (column_names data)"
    and "set keys \<subseteq> set (column_names data)" and "set keys \<subseteq> dom (map_of labels)"
  shows "substitute data labels keys =
           Inr (data\<lparr>columns := map (relabel labels keys) (columns data)\<rparr>)"
  using assms
proof (induction keys arbitrary: data)
  case Nil
  then show ?case by (simp add: relabel_def)
next
  case (Cons key keys)
  from Cons.prems obtain mapping where m: "map_of labels key = Some mapping" by auto
  from Cons.prems have k: "key \<in> set (column_names data)" by simp
  then obtain series where g: "getitem data key = Inr series"
    using column_getitem by blast
  then have s: "map_of (columns data) key = Some series" by (simp add: getitem_Inr)
  let ?d = "setitem data key (series_map series mapping)"
  have names: "column_names ?d = column_names data"
    using k by (rule column_names_setitem)
  have "substitute ?d labels keys = Inr (?d\<lparr>columns := map (relabel labels keys) (columns ?d)\<rparr>)"
    using Cons.prems by (intro Cons.IH) (auto simp: names)
  moreover have "map (relabel labels keys) (columns ?d)
      = map (relabel labels (key # keys)) (columns data)"
  proof -
    have "relabel labels keys (if fst c = key then (key, series_map series mapping) else c)
          = relabel labels (key # keys) c" if "c \<in> set (columns data)" for c
    proof (cases "fst c = key")
      case True
      with that s Cons.prems(2) have "snd c = series"
        by (metis column_names_def map_of_eq_Some_iff option.inject prod.collapse)
      with True m Cons.prems(1) show ?thesis by (simp add: relabel_def)
    next
      case False
      then show ?thesis by (simp add: relabel_def)
    qed
    with k show ?thesis by (simp add: setitem_def)
  qed
  ultimately show ?case using g m k by (simp add: setitem_def)
qed

text \<open>What the loop never touches, with no assumption on the names.\<close>

lemma substitute_frame:
  "substitute data labels keys = Inr data' \<Longrightarrow>
     index data' = index data \<and> column_names data' = column_names data
     \<and> (wf_table data \<longrightarrow> wf_table data')
     \<and> (\<forall>i < length (columns data). fst (columns data ! i) \<notin> set keys \<longrightarrow>
           columns data' ! i = columns data ! i)"
proof (induction keys arbitrary: data)
  case Nil
  then show ?case by simp
next
  case (Cons key keys)
  from Cons.prems obtain series where g: "getitem data key = Inr series"
    by (cases "getitem data key") auto
  with Cons.prems obtain mapping where m: "map_of labels key = Some mapping"
    by (cases "map_of labels key") auto
  let ?d = "setitem data key (series_map series mapping)"
  from g have k: "key \<in> set (column_names data)" by (rule getitem_column)
  from g have "(key, series) \<in> set (columns data)"
    by (auto simp: getitem_Inr dest: map_of_SomeD)
  then have len: "wf_table data \<Longrightarrow> length (series_map series mapping) = length (index data)"
    by (auto simp: wf_table_def length_series_map)
  from Cons.prems g m have "substitute ?d labels keys = Inr data'" by simp
  from Cons.IH [OF this]
  have ih: "index data' = index ?d" "column_names data' = column_names ?d"
     "wf_table ?d \<longrightarrow> wf_table data'"
     "\<forall>i < length (columns ?d). fst (columns ?d ! i) \<notin> set keys \<longrightarrow>
        columns data' ! i = columns ?d ! i"
    by auto
  have "columns data' ! i = columns data ! i"
    if "i < length (columns data)" "fst (columns data ! i) \<notin> set (key # keys)" for i
  proof -
    from that have o: "columns ?d ! i = columns data ! i" by (simp add: setitem_other)
    with that k ih(4) show ?thesis by (simp add: length_columns_setitem)
  qed
  with ih k len show ?case
    by (auto simp: index_setitem column_names_setitem wf_table_setitem)
qed

subsection \<open>Selecting columns by a list of distinct names\<close>



subsection \<open>The claims about the tables\<close>

text \<open>
  C1. Value substitution. For a table with distinct column names and a dictionary of
  labels with distinct keys, all of them column names, the substitution returns a table,
  and in it every column whose name is a key holds, for each cell \<open>v\<close> of the old
  column, the label stored under \<open>v\<close> in the dictionary of that column when \<open>v\<close> is a
  key of it, and the missing marker when it is not: a code without a label is never
  passed on.
\<close>

theorem value_substitution:
  assumes "distinct (column_names data)" and "distinct (map fst labels)"
    and "set (map fst labels) \<subseteq> set (column_names data)"
    and "i < length (columns data)" and "columns data ! i = (var, series)"
    and "map_of labels var = Some mapping"
  shows "\<exists>data'. apply_labels data labels = Inr data' \<and>
           columns data' ! i =
             (var, map (\<lambda>c. case c of None \<Rightarrow> None
                           | Some v \<Rightarrow> (case mapping v of None \<Rightarrow> None | Some label \<Rightarrow> label))
                       series)
           \<and> (\<forall>j < length series. \<forall>v. series ! j = Some v \<and> mapping v = None \<longrightarrow>
                  snd (columns data' ! i) ! j = None)"
proof -
  from assms(6) have "var \<in> set (map fst labels)"
    by (auto dest: map_of_SomeD intro: rev_image_eqI)
  with assms(4,5,6) have "relabel labels (map fst labels) (columns data ! i)
      = (var, series_map series mapping)"
    by (simp add: relabel_def)
  with assms(4) substitute_columns [OF assms(2) assms(1) assms(3) dom_labels] show ?thesis
    by (auto simp: apply_labels_def series_map_def)
qed

theorem value_substitution_witness:
  "\<exists>data'. apply_labels
      \<lparr>columns = [(''UnitID'', [Some (IntV 100), Some (IntV 200)]),
                  (''SECTOR'', [Some (IntV 1), Some (IntV 9)])], index = [0, 1]\<rparr>
      [(''SECTOR'', [IntV 1 \<mapsto> Some (StrV ''Public'')])] = Inr data'
    \<and> columns data' ! 1 = (''SECTOR'', [Some (StrV ''Public''), None])"
  using value_substitution [of
      "\<lparr>columns = [(''UnitID'', [Some (IntV 100), Some (IntV 200)]),
                  (''SECTOR'', [Some (IntV 1), Some (IntV 9)])], index = [0, 1]\<rparr>"
      "[(''SECTOR'', [IntV 1 \<mapsto> Some (StrV ''Public'')])]" 1 "''SECTOR''"
      "[Some (IntV 1), Some (IntV 9)]" "[IntV 1 \<mapsto> Some (StrV ''Public'')]"]
  by (auto simp: column_names_def)

text \<open>
  C2. Frame of the substitution. Whenever the substitution returns a table, the row
  labels and their order are those of the input, the column names and their order are
  unchanged, a table with one cell per row in every column stays such a table, and every
  column whose name is not a key of the dictionary is the same column, cell by cell.
\<close>

theorem substitution_frame:
  assumes "apply_labels data labels = Inr data'"
  shows "index data' = index data \<and> column_names data' = column_names data
     \<and> (wf_table data \<longrightarrow> wf_table data')
     \<and> (\<forall>i < length (columns data). fst (columns data ! i) \<notin> set (map fst labels) \<longrightarrow>
           columns data' ! i = columns data ! i)"
  using assms unfolding apply_labels_def by (rule substitute_frame)

theorem substitution_frame_witness:
  "apply_labels
      \<lparr>columns = [(''UnitID'', [Some (IntV 100), Some (IntV 200)]),
                  (''SECTOR'', [Some (IntV 1), Some (IntV 9)])], index = [0, 1]\<rparr>
      [(''SECTOR'', [IntV 1 \<mapsto> Some (StrV ''Public'')])]
    = Inr \<lparr>columns = [(''UnitID'', [Some (IntV 100), Some (IntV 200)]),
                      (''SECTOR'', [Some (StrV ''Public''), None])], index = [0, 1]\<rparr>
   \<and> index \<lparr>columns = [(''UnitID'', [Some (IntV 100), Some (IntV 200)]),
                      (''SECTOR'', [Some (StrV ''Public''), None])], index = [0, 1]\<rparr> = [0, 1]
   \<and> wf_table \<lparr>columns = [(''UnitID'', [Some (IntV 100), Some (IntV 200)]),
                      (''SECTOR'', [Some (StrV ''Public''), None])], index = [0, 1]\<rparr>
   \<and> columns \<lparr>columns = [(''UnitID'', [Some (IntV 100), Some (IntV 200)]),
                      (''SECTOR'', [Some (StrV ''Public''), None])], index = [0, 1]\<rparr> ! 0
       = (''UnitID'', [Some (IntV 100), Some (IntV 200)])"
proof -
  have run: "apply_labels
      \<lparr>columns = [(''UnitID'', [Some (IntV 100), Some (IntV 200)]),
                  (''SECTOR'', [Some (IntV 1), Some (IntV 9)])], index = [0, 1]\<rparr>
      [(''SECTOR'', [IntV 1 \<mapsto> Some (StrV ''Public'')])]
    = Inr \<lparr>columns = [(''UnitID'', [Some (IntV 100), Some (IntV 200)]),
                      (''SECTOR'', [Some (StrV ''Public''), None])], index = [0, 1]\<rparr>"
    by (simp add: apply_labels_def getitem_def setitem_def series_map_def column_names_def)
  have wf: "wf_table
      \<lparr>columns = [(''UnitID'', [Some (IntV 100), Some (IntV 200)]),
                  (''SECTOR'', [Some (IntV 1), Some (IntV 9)])], index = [0, 1]\<rparr>"
    by (simp add: wf_table_def)
  from substitution_frame [OF run] wf run show ?thesis by simp
qed




text \<open>
  C8. Label map builder, as the code has it. The entry of the dictionary for a variable
  and a value is the label of the last row of the label table with that variable and
  that value, and there is no entry when no row has them: the last occurrence wins. The
  dictionary is a function of the table.
\<close>

theorem label_map_last_wins:
  "label_of (build_labels value_labels) var v =
     map_option ValueLabel
       (find (\<lambda>row. VariableName row = var \<and> Value row = v) (rev value_labels))
   \<and> (value_labels = pre @ row # post
       \<and> (\<forall>r \<in> set post. \<not> (VariableName r = VariableName row \<and> Value r = Value row))
     \<longrightarrow> label_of (build_labels value_labels) (VariableName row) (Value row)
           = Some (ValueLabel row))"
proof -
  have "find (\<lambda>r. VariableName r = VariableName row \<and> Value r = Value row)
          (rev (pre @ row # post)) = Some row"
    if "\<forall>r \<in> set post. \<not> (VariableName r = VariableName row \<and> Value r = Value row)"
    using find_append_first
      [of "rev post" "\<lambda>r. VariableName r = VariableName row \<and> Value r = Value row"
          row "rev pre"]
      that
    by simp
  then show ?thesis
    by (auto simp: label_of_build_labels)
qed

theorem label_map_last_wins_witness:
  "label_of (build_labels
      [\<lparr>VariableName = ''SECTOR'', Value = IntV 1, ValueLabel = Some (StrV ''Public'')\<rparr>,
       \<lparr>VariableName = ''SECTOR'', Value = IntV 1, ValueLabel = Some (StrV ''Private'')\<rparr>,
       \<lparr>VariableName = ''SECTOR'', Value = IntV 2, ValueLabel = Some (StrV ''Other'')\<rparr>])
      ''SECTOR'' (IntV 1) = Some (Some (StrV ''Private''))"
  using label_map_last_wins [of
      "[\<lparr>VariableName = ''SECTOR'', Value = IntV 1, ValueLabel = Some (StrV ''Public'')\<rparr>,
        \<lparr>VariableName = ''SECTOR'', Value = IntV 1, ValueLabel = Some (StrV ''Private'')\<rparr>,
        \<lparr>VariableName = ''SECTOR'', Value = IntV 2, ValueLabel = Some (StrV ''Other'')\<rparr>]"
      "''SECTOR''" "IntV 1"
      "[\<lparr>VariableName = ''SECTOR'', Value = IntV 1, ValueLabel = Some (StrV ''Public'')\<rparr>]"
      "\<lparr>VariableName = ''SECTOR'', Value = IntV 1, ValueLabel = Some (StrV ''Private'')\<rparr>"
      "[\<lparr>VariableName = ''SECTOR'', Value = IntV 2, ValueLabel = Some (StrV ''Other'')\<rparr>]"]
  by simp

text \<open>
  The claim as the specification words it, the first occurrence wins, fails: of two rows
  for the same variable and value the dictionary holds the label of the second.
\<close>

theorem label_map_first_wins_counterexample:
  "label_of (build_labels
      [\<lparr>VariableName = ''SECTOR'', Value = IntV 1, ValueLabel = Some (StrV ''Public'')\<rparr>,
       \<lparr>VariableName = ''SECTOR'', Value = IntV 1, ValueLabel = Some (StrV ''Private'')\<rparr>])
      ''SECTOR'' (IntV 1) = Some (Some (StrV ''Private''))
   \<and> label_of (build_labels
      [\<lparr>VariableName = ''SECTOR'', Value = IntV 1, ValueLabel = Some (StrV ''Public'')\<rparr>,
       \<lparr>VariableName = ''SECTOR'', Value = IntV 1, ValueLabel = Some (StrV ''Private'')\<rparr>])
      ''SECTOR'' (IntV 1) \<noteq> Some (Some (StrV ''Public''))"
  by (simp add: label_of_def build_labels_def build_mapping_def)

text \<open>
  C9. Archive member selection. The file chosen for a substring is the first member
  name that contains it; when no member name contains it the choice raises
  \<open>IndexError\<close>; and when no member name contains \<open>Data\<close>, or none contains
  \<open>ValueLabels\<close>, the run ends with \<open>IndexError\<close> and the output directory is as it
  was before.
\<close>

theorem archive_member_selection:
  "(first_match sub namelist = Inr file \<longleftrightarrow>
      (\<exists>pre post. namelist = pre @ file # post \<and> py_in sub file
         \<and> (\<forall>f \<in> set pre. \<not> py_in sub f)))
   \<and> ((\<forall>f \<in> set namelist. \<not> py_in sub f) \<longrightarrow> first_match sub namelist = Inl IndexError)
   \<and> ((\<forall>f \<in> set namelist. \<not> py_in ''Data'' f)
        \<or> (\<forall>f \<in> set namelist. \<not> py_in ''ValueLabels'' f)
      \<longrightarrow> clean_data read_data read_labels today namelist output_dir
            = (Some IndexError, output_dir))"
proof -
  have run: "clean_data read_data read_labels today namelist output_dir
      = (Some IndexError, output_dir)"
    if "(\<forall>f \<in> set namelist. \<not> py_in ''Data'' f)
        \<or> (\<forall>f \<in> set namelist. \<not> py_in ''ValueLabels'' f)"
  proof -
    from that have "first_match ''Data'' namelist = Inl IndexError
        \<or> first_match ''ValueLabels'' namelist = Inl IndexError"
      by (auto simp: first_match_Inl)
    then have "process read_data read_labels namelist = Inl IndexError"
    proof
      assume "first_match ''Data'' namelist = Inl IndexError"
      then show ?thesis by (simp add: process_def)
    next
      assume v: "first_match ''ValueLabels'' namelist = Inl IndexError"
      show ?thesis
      proof (cases "first_match ''Data'' namelist")
        case (Inl e)
        then have "e = IndexError" by (simp add: first_match_Inl)
        with Inl show ?thesis by (simp add: process_def)
      next
        case (Inr DATA_FILE)
        with v show ?thesis by (simp add: process_def)
      qed
    qed
    then show ?thesis by (simp add: clean_data_def)
  qed
  from run show ?thesis
    by (simp add: first_match_Inr first_match_Inl)
qed

theorem archive_member_selection_witness:
  "first_match ''Data'' [''readme.txt'', ''Data_1.csv'', ''Data_2.csv''] = Inr ''Data_1.csv''
   \<and> first_match ''Data'' [''data2020.csv'', ''ValueLabels_1.csv''] = Inl IndexError
   \<and> clean_data (\<lambda>f. Inl ParserError) (\<lambda>f. Inl ParserError) ''2020-08-12''
        [''data2020.csv'', ''ValueLabels_1.csv''] Map.empty = (Some IndexError, Map.empty)"
proof -
  have a: "[''readme.txt'', ''Data_1.csv'', ''Data_2.csv'']
        = [''readme.txt''] @ ''Data_1.csv'' # [''Data_2.csv'']
      \<and> py_in ''Data'' ''Data_1.csv'' \<and> (\<forall>f \<in> set [''readme.txt'']. \<not> py_in ''Data'' f)"
    by simp
  have b: "\<forall>f \<in> set [''data2020.csv'', ''ValueLabels_1.csv'']. \<not> py_in ''Data'' f"
    by simp
  from a archive_member_selection
    [of "''Data''" "[''readme.txt'', ''Data_1.csv'', ''Data_2.csv'']" "''Data_1.csv''"]
  have 1: "first_match ''Data'' [''readme.txt'', ''Data_1.csv'', ''Data_2.csv'']
      = Inr ''Data_1.csv''"
    by blast
  from b archive_member_selection [of "''Data''" "[''data2020.csv'', ''ValueLabels_1.csv'']"]
  have 2: "first_match ''Data'' [''data2020.csv'', ''ValueLabels_1.csv''] = Inl IndexError"
    and 3: "clean_data (\<lambda>f. Inl ParserError) (\<lambda>f. Inl ParserError) ''2020-08-12''
        [''data2020.csv'', ''ValueLabels_1.csv''] Map.empty = (Some IndexError, Map.empty)"
    by blast+
  from 1 2 3 show ?thesis by simp
qed

text \<open>
  C10. A label variable without a column. When a row of the label table names a variable
  that is not a column of the filtered data table, the substitution raises \<open>KeyError\<close>,
  and a run that got that far ends with \<open>KeyError\<close> and the output directory as it
  was. The substitution returns a table exactly when every key of the dictionary is a
  column name.
\<close>

theorem label_variable_without_column:
  "(r \<in> set value_labels \<and> VariableName r \<notin> set (column_names data) \<longrightarrow>
      apply_labels data (build_labels value_labels) = Inl KeyError)
   \<and> (first_match ''Data'' namelist = Inr DATA_FILE
      \<and> first_match ''ValueLabels'' namelist = Inr VALUELABELS_FILE
      \<and> read_data DATA_FILE = Inr raw \<and> read_labels VALUELABELS_FILE = Inr value_labels
      \<and> filter_unnamed raw = Inr data
      \<and> r \<in> set value_labels \<and> VariableName r \<notin> set (column_names data) \<longrightarrow>
      clean_data read_data read_labels today namelist output_dir
        = (Some KeyError, output_dir))
   \<and> ((\<exists>data'. apply_labels data labels = Inr data')
        \<longleftrightarrow> set (map fst labels) \<subseteq> set (column_names data))"
proof -
  have sub: "apply_labels data (build_labels value_labels) = Inl KeyError"
    if "r \<in> set value_labels" "VariableName r \<notin> set (column_names data)"
    unfolding apply_labels_def
  proof (rule substitute_missing)
    from that
    show "\<exists>key \<in> set (map fst (build_labels value_labels)). key \<notin> set (column_names data)"
      unfolding keys_build_labels by blast
    show "set (map fst (build_labels value_labels))
            \<subseteq> dom (map_of (build_labels value_labels))"
      by (rule dom_labels)
  qed
  have run: "clean_data read_data read_labels today namelist output_dir
      = (Some KeyError, output_dir)"
    if "first_match ''Data'' namelist = Inr DATA_FILE"
      "first_match ''ValueLabels'' namelist = Inr VALUELABELS_FILE"
      "read_data DATA_FILE = Inr raw" "read_labels VALUELABELS_FILE = Inr value_labels"
      "filter_unnamed raw = Inr data"
      "r \<in> set value_labels" "VariableName r \<notin> set (column_names data)"
  proof -
    from that sub have "process read_data read_labels namelist = Inl KeyError"
      by (simp add: process_def)
    then show ?thesis by (simp add: clean_data_def)
  qed
  have total: "(\<exists>data'. apply_labels data labels = Inr data')
        \<longleftrightarrow> set (map fst labels) \<subseteq> set (column_names data)"
    unfolding apply_labels_def
    using substitute_total [OF _ dom_labels, of labels data]
      substitute_Inr_keys [of data labels "map fst labels"]
    by blast
  from sub run total show ?thesis by blast
qed

theorem label_variable_without_column_witness:
  "apply_labels \<lparr>columns = [(''UnitID'', [Some (IntV 100)])], index = [0]\<rparr>
     (build_labels
        [\<lparr>VariableName = ''SECTOR'', Value = IntV 1, ValueLabel = Some (StrV ''Public'')\<rparr>])
     = Inl KeyError
   \<and> clean_data
       (\<lambda>f. Inr \<lparr>columns = [(''UnitID'', [Some (IntV 100)])], index = [0]\<rparr>)
       (\<lambda>f. Inr [\<lparr>VariableName = ''SECTOR'', Value = IntV 1,
                   ValueLabel = Some (StrV ''Public'')\<rparr>])
       ''2020-08-12'' [''Data_1.csv'', ''ValueLabels_1.csv''] Map.empty
     = (Some KeyError, Map.empty)"
proof -
  let ?data = "\<lparr>columns = [(''UnitID'', [Some (IntV 100)])], index = [0]\<rparr>"
  let ?row = "\<lparr>VariableName = ''SECTOR'', Value = IntV 1, ValueLabel = Some (StrV ''Public'')\<rparr>"
  have d: "first_match ''Data'' [''Data_1.csv'', ''ValueLabels_1.csv''] = Inr ''Data_1.csv''"
    by (simp add: first_match_def)
  have v: "first_match ''ValueLabels'' [''Data_1.csv'', ''ValueLabels_1.csv'']
      = Inr ''ValueLabels_1.csv''"
    by (simp add: first_match_def)
  have f: "filter_unnamed ?data = Inr ?data"
    by (simp add: filter_unnamed_def getitem_list_def column_names_def select_def)
  have m: "?row \<in> set [?row] \<and> VariableName ?row \<notin> set (column_names ?data)"
    by (simp add: column_names_def)
  from label_variable_without_column
    [of ?row "[?row]" ?data "[''Data_1.csv'', ''ValueLabels_1.csv'']" "''Data_1.csv''"
        "''ValueLabels_1.csv''" "\<lambda>f. Inr ?data" ?data "\<lambda>f. Inr [?row]"
        "''2020-08-12''" Map.empty]
    d v f m
  show ?thesis by simp
qed

end
